theory Spec2Isabelle
  imports Main "HOL-Library.Word" "HOL-Library.Sublist"
begin

unbundle bit_operations_syntax

section \<open>The HTTP backend dispatcher of pkg/util/httpbackend\<close>

text \<open>
  A shallow embedding of \<^verbatim>\<open>src/pkg/util/httpbackend/httpbackend.go\<close>.
  Structs are records, Go's \<^verbatim>\<open>error\<close> results are \<open>string option\<close>
  (the message, \<open>None\<close> for \<^verbatim>\<open>nil\<close>), runtime panics are values of the
  type \<open>panic\<close>, \<^verbatim>\<open>uint64\<close> and \<^verbatim>\<open>uint32\<close> are words, and Go's \<^verbatim>\<open>int\<close>
  is taken to be 64 bits wide (the value of a \<^verbatim>\<open>uint64\<close> converted to
  \<^verbatim>\<open>int\<close> is its two's complement reading, \<open>sint\<close>).
\<close>

subsection \<open>Configuration\<close>

record Server =
  URL :: string
  Tags :: "string list"

record LoadBalance =
  Policy :: string
  HeaderHashKey :: string

text \<open>
  Modelled from the spec: the packages \<^verbatim>\<open>httpadaptor\<close> and \<^verbatim>\<open>memorycache\<close>
  are not among the sources. The spec treats the adaptor and the cache as
  collaborators behind the narrow contracts \<^verbatim>\<open>AdaptRequest\<close>/\<^verbatim>\<open>AdaptResponse\<close>
  and \<^verbatim>\<open>Load\<close>/\<^verbatim>\<open>Store\<close>. The dispatcher only tests their specs for
  \<^verbatim>\<open>nil\<close> and hands them to the constructors, which return no error, so a spec
  is an opaque value and a collaborator is the object built from it.
\<close>

datatype httpadaptor_Spec = HTTPAdaptorSpec string
datatype memorycache_Spec = MemoryCacheSpec string

datatype HTTPAdaptor = MkHTTPAdaptor httpadaptor_Spec
datatype MemoryCache = MkMemoryCache memorycache_Spec

definition httpadaptor_New :: "httpadaptor_Spec \<Rightarrow> HTTPAdaptor" where
  "httpadaptor_New sp = MkHTTPAdaptor sp"

definition memorycache_New :: "memorycache_Spec \<Rightarrow> MemoryCache" where
  "memorycache_New sp = MkMemoryCache sp"

record Spec =
  ServersTags :: "string list"
  Servers :: "Server list"
  LoadBalance :: "LoadBalance option"
  Adaptor :: "httpadaptor_Spec option"
  MemoryCache :: "memorycache_Spec option"

definition policyRoundRobin :: string where "policyRoundRobin = ''roundRobin''"
definition policyRandom :: string where "policyRandom = ''random''"
definition policyIPHash :: string where "policyIPHash = ''ipHash''"
definition policyHeaderHash :: string where "policyHeaderHash = ''headerHash''"

subsection \<open>Picking the servers by tag\<close>

text \<open>
  Modelled from the spec: \<^verbatim>\<open>common.StrInSlice\<close> (package \<^verbatim>\<open>pkg/common\<close>) is
  not among the sources. The spec calls the test it is used for a set-subset test:
  a server is included iff it carries every tag of the filter, so
  \<^verbatim>\<open>StrInSlice(tag, tags)\<close> is membership of \<^verbatim>\<open>tag\<close> in the slice \<^verbatim>\<open>tags\<close>.
\<close>

fun StrInSlice :: "string \<Rightarrow> string list \<Rightarrow> bool" where
  "StrInSlice str [] = False"
| "StrInSlice str (s # ss) = (if str = s then True else StrInSlice str ss)"

text \<open>The first loop of \<^verbatim>\<open>pickServers\<close>: does any server declare a tag?\<close>

fun serverHasTag :: "Server list \<Rightarrow> bool" where
  "serverHasTag [] = False"
| "serverHasTag (server # rest) =
     (if length (Tags server) \<noteq> 0 then True else serverHasTag rest)"

text \<open>The inner loop: every tag of the filter is found among the server's tags.\<close>

fun allFound :: "string list \<Rightarrow> Server \<Rightarrow> bool" where
  "allFound [] server = True"
| "allFound (tag # tags) server =
     (if \<not> StrInSlice tag (Tags server) then False else allFound tags server)"

text \<open>The outer loop, appending to the slice \<^verbatim>\<open>servers\<close>.\<close>

fun pickLoop :: "string list \<Rightarrow> Server list \<Rightarrow> Server list \<Rightarrow> Server list" where
  "pickLoop serversTags [] servers = servers"
| "pickLoop serversTags (server # rest) servers =
     pickLoop serversTags rest
       (if allFound serversTags server then servers @ [server] else servers)"

definition pickServers :: "Spec \<Rightarrow> Server list" where
  "pickServers s =
     (if length (ServersTags s) = 0 \<and> \<not> serverHasTag (Servers s) then Servers s
      else pickLoop (ServersTags s) (Servers s) [])"

subsection \<open>Validation\<close>

definition Validate :: "Spec \<Rightarrow> string option" where
  "Validate s =
     (let servers = pickServers s in
      if length servers = 0 then Some ''serversTags picks none of servers''
      else None)"

definition LoadBalance_Validate :: "LoadBalance \<Rightarrow> string option" where
  "LoadBalance_Validate lb =
     (if Policy lb = policyHeaderHash \<and> length (HeaderHashKey lb) = 0
      then Some ''headerHash needs to speficy headerHashKey''
      else None)"

subsection \<open>Requests, responses and the calls made on collaborators\<close>

text \<open>
  Modelled from the spec: the request context (package \<^verbatim>\<open>context\<close>), the
  adaptor, the memory cache and the logger are packages that are not among the
  sources, and the HTTP client is the standard library's. The spec gives their
  contracts: the context exposes the method, path, headers, body and resolved IP
  of the request, setters for the status, headers and body of the response, a sink
  for tags and a hook called when the request finishes; \<^verbatim>\<open>Load\<close> reports a hit
  or a miss; \<^verbatim>\<open>AdaptRequest\<close> returns a method, a path and headers. What the
  dispatcher reads from the request is the record \<open>Request\<close>; what it does to
  its collaborators is the list of the calls it makes on them, in order (a
  registered callback is named by a string); what they answer is given by an
  environment \<open>env\<close>: the answer of \<^verbatim>\<open>Load\<close>, the result of
  \<^verbatim>\<open>AdaptRequest\<close>, the number drawn by \<^verbatim>\<open>rand.Intn\<close>, the error of
  \<^verbatim>\<open>http.NewRequest\<close> if any, and the error or the response of \<^verbatim>\<open>client.Do\<close>.
\<close>

record Request =
  Method :: string
  Path :: string
  Header :: "(string \<times> string list) list"
  RealIP :: string
  Body :: string

record HTTPResponse =
  StatusCode :: int
  RespHeader :: "(string \<times> string list) list"
  RespBody :: string

text \<open>
  Modelled from the spec: \<^verbatim>\<open>httpheader.HTTPHeader.Get\<close> is not among the
  sources. The header is a map from a key to the list of its values, and the spec
  has a request that lacks the header take part in the hash with the empty
  string: \<^verbatim>\<open>Get\<close> is the first value of the key, and the empty string when
  the key has no value.
\<close>

definition header_Get :: "(string \<times> string list) list \<Rightarrow> string \<Rightarrow> string" where
  "header_Get h key =
     (case map_of h key of None \<Rightarrow> [] | Some [] \<Rightarrow> [] | Some (v # vs) \<Rightarrow> v)"

datatype call =
    Cache_Load
  | Cache_Store
  | Ctx_AddTag string
  | Adaptor_AdaptRequest bool
  | Adaptor_AdaptResponse
  | Http_NewRequest string string
  | Client_Do string string
  | Resp_SetStatusCode int
  | Resp_Header_AddFromStd
  | Resp_SetBody
  | ResponseGot string
  | Ctx_OnFinish
  | Logger_Errorf string
  | Go_DrainBody

record env =
  cacheLoad :: bool
  adaptRequestResult :: "string \<times> string \<times> (string \<times> string list) list"
  randInt :: nat
  newRequestErr :: "string option"
  doResult :: "string + HTTPResponse"

subsection \<open>Runtime panics and integer operations of Go\<close>

datatype panic = DivideByZero | IndexOutOfRange | NilDereference | IntnInvalidArgument

text \<open>Go's \<^verbatim>\<open>%\<close> on \<^verbatim>\<open>int\<close>: it panics on a zero divisor and truncates towards zero.\<close>

definition go_rem :: "int \<Rightarrow> int \<Rightarrow> panic + int" where
  "go_rem a b = (if b = 0 then Inl DivideByZero else Inr (sgn a * (\<bar>a\<bar> mod \<bar>b\<bar>)))"

text \<open>
  \<^verbatim>\<open>&b.servers[i]\<close>: the pointer into the slice is the index, and an index
  outside the slice is a panic.
\<close>

definition index_servers :: "Server list \<Rightarrow> int \<Rightarrow> panic + nat" where
  "index_servers svs i =
     (if 0 \<le> i \<and> i < int (length svs) then Inr (nat i) else Inl IndexOutOfRange)"

text \<open>\<^verbatim>\<open>&b.servers[v%len(b.servers)]\<close>\<close>

definition server_at_rem :: "Server list \<Rightarrow> int \<Rightarrow> panic + nat" where
  "server_at_rem svs v =
     (case go_rem v (int (length svs)) of
        Inl p \<Rightarrow> Inl p
      | Inr i \<Rightarrow> index_servers svs i)"

text \<open>
  \<^verbatim>\<open>rand.Intn(n)\<close> of the standard library panics when \<^verbatim>\<open>n <= 0\<close> and
  otherwise returns a number of \<^verbatim>\<open>[0, n)\<close>, here the one the environment chooses.
\<close>

definition rand_Intn :: "env \<Rightarrow> int \<Rightarrow> panic + int" where
  "rand_Intn e n = (if n \<le> 0 then Inl IntnInvalidArgument else Inr (int (randInt e) mod n))"

text \<open>\<^verbatim>\<open>fnv.New32a\<close>, \<^verbatim>\<open>Write\<close> and \<^verbatim>\<open>Sum32\<close>: the 32-bit FNV-1a hash.\<close>

fun fnv32a :: "32 word \<Rightarrow> string \<Rightarrow> 32 word" where
  "fnv32a h [] = h"
| "fnv32a h (c # cs) = fnv32a ((h XOR of_char c) * 16777619) cs"

definition hash32Once :: "string \<Rightarrow> 32 word" where
  "hash32Once key = fnv32a 2166136261 key"

text \<open>\<^verbatim>\<open>%d\<close> of \<^verbatim>\<open>fmt.Sprintf\<close>.\<close>

fun showNat :: "nat \<Rightarrow> string" where
  "showNat n =
     (if n < 10 then [char_of (48 + n)]
      else showNat (n div 10) @ [char_of (48 + n mod 10)])"

definition showInt :: "int \<Rightarrow> string" where
  "showInt i = (if i < 0 then CHR ''-'' # showNat (nat (- i)) else showNat (nat i))"

subsection \<open>The code counter\<close>

text \<open>
  Modelled from the spec: \<^verbatim>\<open>codeCounter\<close>, \<^verbatim>\<open>newCodeCounter\<close>,
  \<^verbatim>\<open>count\<close> and \<^verbatim>\<open>codes\<close> are not among the sources. The spec has the
  counter map a server, identified by its URL, to a map from a status code to a
  64-bit number of occurrences, which \<^verbatim>\<open>count(server, statusCode)\<close> increments.
\<close>

type_synonym codeCounter = "string \<Rightarrow> int \<Rightarrow> 64 word"

definition newCodeCounter :: "Server list \<Rightarrow> codeCounter" where
  "newCodeCounter svs = (\<lambda>url code. 0)"

definition codeCounter_count :: "codeCounter \<Rightarrow> Server \<Rightarrow> int \<Rightarrow> codeCounter" where
  "codeCounter_count cc server code =
     cc(URL server := (cc (URL server))(code := cc (URL server) code + 1))"

definition codeCounter_codes :: "codeCounter \<Rightarrow> string \<Rightarrow> int \<Rightarrow> 64 word" where
  "codeCounter_codes cc = cc"

subsection \<open>The backend\<close>

text \<open>
  The struct \<^verbatim>\<open>HTTPBackend\<close>. Its field \<^verbatim>\<open>client\<close> is always the one global
  client, whose calls appear as \<open>Client_Do\<close>; the callbacks of
  \<^verbatim>\<open>responseGotFuncs\<close> are kept by name.
\<close>

record HTTPBackend =
  spec :: Spec
  servers :: "Server list"
  codeCounter :: codeCounter
  responseGotFuncs :: "string list"
  count :: "64 word"
  adaptor :: "HTTPAdaptor option"
  memoryCache :: "MemoryCache option"

definition New :: "Spec \<Rightarrow> HTTPBackend" where
  "New sp =
     (let adaptor' = (case Adaptor sp of None \<Rightarrow> None | Some a \<Rightarrow> Some (httpadaptor_New a));
          memoryCache' = (case MemoryCache sp of None \<Rightarrow> None | Some m \<Rightarrow> Some (memorycache_New m));
          servers' = pickServers sp
      in \<lparr> spec = sp, servers = servers', codeCounter = newCodeCounter servers',
           responseGotFuncs = [], count = 0, adaptor = adaptor', memoryCache = memoryCache' \<rparr>)"

subsection \<open>Load balancing\<close>

text \<open>
  \<^verbatim>\<open>atomic.AddUint64(&b.count, 1)\<close> stores and returns the incremented counter;
  \<^verbatim>\<open>int(count)\<close> reads it as a signed 64-bit integer. The counter stays
  incremented when the indexing panics.
\<close>

definition roundRobin :: "Request \<Rightarrow> HTTPBackend \<Rightarrow> (panic + nat) \<times> HTTPBackend" where
  "roundRobin ctx b =
     (let count' = count b + 1;
          b' = b\<lparr>count := count'\<rparr>
      in (server_at_rem (servers b') (sint count'), b'))"

definition random :: "env \<Rightarrow> Request \<Rightarrow> HTTPBackend \<Rightarrow> (panic + nat) \<times> HTTPBackend" where
  "random e ctx b =
     (case rand_Intn e (int (length (servers b))) of
        Inl p \<Rightarrow> (Inl p, b)
      | Inr i \<Rightarrow> (index_servers (servers b) i, b))"

definition ipHash :: "Request \<Rightarrow> HTTPBackend \<Rightarrow> (panic + nat) \<times> HTTPBackend" where
  "ipHash ctx b =
     (let sum32 = uint (hash32Once (RealIP ctx))
      in (server_at_rem (servers b) sum32, b))"

definition headerHash :: "Request \<Rightarrow> HTTPBackend \<Rightarrow> (panic + nat) \<times> HTTPBackend" where
  "headerHash ctx b =
     (case LoadBalance (spec b) of
        None \<Rightarrow> (Inl NilDereference, b)
      | Some lb \<Rightarrow>
          (let value = header_Get (Header ctx) (HeaderHashKey lb);
               sum32 = uint (hash32Once value)
           in (server_at_rem (servers b) sum32, b)))"

definition nextServer ::
  "env \<Rightarrow> Request \<Rightarrow> HTTPBackend \<Rightarrow> (panic + nat) \<times> HTTPBackend \<times> call list" where
  "nextServer e ctx b =
     (case LoadBalance (spec b) of
        None \<Rightarrow> (Inl NilDereference, b, [])
      | Some lb \<Rightarrow>
          if Policy lb = policyRoundRobin then
            (case roundRobin ctx b of (r, b') \<Rightarrow> (r, b', []))
          else if Policy lb = policyRandom then
            (case random e ctx b of (r, b') \<Rightarrow> (r, b', []))
          else if Policy lb = policyIPHash then
            (case ipHash ctx b of (r, b') \<Rightarrow> (r, b', []))
          else if Policy lb = policyHeaderHash then
            (case headerHash ctx b of (r, b') \<Rightarrow> (r, b', []))
          else
            (case roundRobin ctx b of (r, b') \<Rightarrow>
               (r, b', [Logger_Errorf (''BUG: unknown load balance policy: '' @ Policy lb)])))"

text \<open>Consecutive round-robin selections, in order, and the backend they leave.\<close>

fun roundRobins :: "nat \<Rightarrow> Request \<Rightarrow> HTTPBackend \<Rightarrow> (panic + nat) list \<times> HTTPBackend" where
  "roundRobins 0 ctx b = ([], b)"
| "roundRobins (Suc k) ctx b =
     (case roundRobin ctx b of (r, b') \<Rightarrow>
        (case roundRobins k ctx b' of (rs, b'') \<Rightarrow> (r # rs, b'')))"

subsection \<open>Adaptation, callbacks and the two dispatch paths\<close>

definition adaptRequest ::
  "env \<Rightarrow> Request \<Rightarrow> bool \<Rightarrow> HTTPBackend \<Rightarrow>
     (string \<times> string \<times> (string \<times> string list) list) \<times> call list" where
  "adaptRequest e ctx headerInPlace b =
     (case adaptor b of
        Some a \<Rightarrow> (adaptRequestResult e, [Adaptor_AdaptRequest headerInPlace])
      | None \<Rightarrow> ((Method ctx, Path ctx, Header ctx), []))"

definition adaptResponse :: "HTTPBackend \<Rightarrow> call list" where
  "adaptResponse b = (case adaptor b of Some a \<Rightarrow> [Adaptor_AdaptResponse] | None \<Rightarrow> [])"

definition Codes :: "HTTPBackend \<Rightarrow> string \<Rightarrow> int \<Rightarrow> 64 word" where
  "Codes b = codeCounter_codes (codeCounter b)"

definition OnResponseGot :: "string \<Rightarrow> HTTPBackend \<Rightarrow> HTTPBackend" where
  "OnResponseGot fn b = b\<lparr>responseGotFuncs := responseGotFuncs b @ [fn]\<rparr>"

text \<open>
  The body of \<^verbatim>\<open>HandleWithResponse\<close> after the cache check (lines 262 to 314):
  the result is the panic that ended it, if any, the backend it leaves and the
  calls it made.
\<close>

definition forward ::
  "env \<Rightarrow> Request \<Rightarrow> HTTPBackend \<Rightarrow> panic option \<times> HTTPBackend \<times> call list" where
  "forward e ctx b =
     (case nextServer e ctx b of
        (Inl p, b1, cs1) \<Rightarrow> (Some p, b1, cs1)
      | (Inr i, b1, cs1) \<Rightarrow>
          (let server = servers b1 ! i;
               cs2 = cs1 @ [Ctx_AddTag (''backendAddr:'' @ URL server)]
           in case adaptRequest e ctx True b1 of
             ((method, path, header), cs3) \<Rightarrow>
               (let url = URL server @ path;
                    cs4 = cs2 @ cs3 @ [Http_NewRequest method url]
                in case newRequestErr e of
                  Some err \<Rightarrow>
                    (None, b1,
                     cs4 @ [Logger_Errorf (''BUG: new request failed: '' @ err),
                            Resp_SetStatusCode 500,
                            Ctx_AddTag (''backendBug:'' @ err)])
                | None \<Rightarrow>
                    (let cs5 = cs4 @ [Client_Do method url]
                     in case doResult e of
                       Inl err \<Rightarrow>
                         (None, b1,
                          cs5 @ [Resp_SetStatusCode 503,
                                 Ctx_AddTag (''backendErr:'' @ err)])
                     | Inr resp \<Rightarrow>
                         (let b2 = b1\<lparr>codeCounter :=
                                       codeCounter_count (codeCounter b1) server (StatusCode resp)\<rparr>;
                              cs6 = cs5 @ [Resp_SetStatusCode (StatusCode resp),
                                           Ctx_AddTag (''backendCode:'' @ showInt (StatusCode resp)),
                                           Resp_Header_AddFromStd,
                                           Resp_SetBody];
                              cs7 = cs6 @ map ResponseGot (responseGotFuncs b2)
                          in (None, b2, cs7 @ [Ctx_OnFinish]))))))"

text \<open>
  \<^verbatim>\<open>HandleWithResponse\<close>: the deferred \<^verbatim>\<open>Store\<close> runs when the function
  returns and when it panics.
\<close>

definition HandleWithResponse ::
  "env \<Rightarrow> Request \<Rightarrow> HTTPBackend \<Rightarrow> panic option \<times> HTTPBackend \<times> call list" where
  "HandleWithResponse e ctx b =
     (case memoryCache b of
        None \<Rightarrow> forward e ctx b
      | Some mc \<Rightarrow>
          if cacheLoad e then (None, b, [Cache_Load])
          else (case forward e ctx b of
                  (p, b', cs) \<Rightarrow> (p, b', [Cache_Load] @ cs @ [Cache_Store])))"

definition HandleWithoutResponse ::
  "env \<Rightarrow> Request \<Rightarrow> HTTPBackend \<Rightarrow> panic option \<times> HTTPBackend \<times> call list" where
  "HandleWithoutResponse e ctx b =
     (case nextServer e ctx b of
        (Inl p, b1, cs1) \<Rightarrow> (Some p, b1, cs1)
      | (Inr i, b1, cs1) \<Rightarrow>
          (let server = servers b1 ! i;
               cs2 = cs1 @ [Ctx_AddTag (''mirrorBackendAddr:'' @ URL server)]
           in case adaptRequest e ctx False b1 of
             ((method, path, header), cs3) \<Rightarrow>
               (let url = URL server @ path;
                    cs4 = cs2 @ cs3 @ [Http_NewRequest method url]
                in case newRequestErr e of
                  Some err \<Rightarrow>
                    (None, b1, cs4 @ [Logger_Errorf (''BUG: new request failed: '' @ err)])
                | None \<Rightarrow>
                    (let cs5 = cs4 @ [Client_Do method url]
                     in case doResult e of
                       Inl err \<Rightarrow>
                         (None, b1, cs5 @ [Ctx_AddTag (''mirrorBackendFailed:'' @ err)])
                     | Inr resp \<Rightarrow>
                         (let b2 = b1\<lparr>codeCounter :=
                                       codeCounter_count (codeCounter b1) server (StatusCode resp)\<rparr>
                          in (None, b2, cs5 @ [Go_DrainBody]))))))"

subsection \<open>A configuration to evaluate on\<close>

text \<open>
  The scenario of the specification: three servers tagged \<open>v1\<close>, \<open>v1\<close> and
  \<open>v2\<close>, filtered by \<open>v1\<close>; and variants of it: without a filter, with a
  filter that no server passes, without any tag, with an unknown policy, with the
  header-hash policy, with an adaptor and with a cache. The environments answer
  with a response of status 200, with a transport error, and with a cache hit.
\<close>

definition exampleServers :: "Server list" where
  "exampleServers =
     [\<lparr>URL = ''http://a'', Tags = [''v1'']\<rparr>,
      \<lparr>URL = ''http://b'', Tags = [''v1'']\<rparr>,
      \<lparr>URL = ''http://c'', Tags = [''v2'']\<rparr>]"

definition exampleSpec :: Spec where
  "exampleSpec =
     \<lparr>ServersTags = [''v1''], Servers = exampleServers,
      LoadBalance = Some \<lparr>Policy = ''roundRobin'', HeaderHashKey = []\<rparr>,
      Adaptor = None, MemoryCache = None\<rparr>"

definition unfilteredSpec :: Spec where
  "unfilteredSpec = exampleSpec\<lparr>ServersTags := []\<rparr>"

definition exampleRequest :: Request where
  "exampleRequest =
     \<lparr>Method = ''GET'', Path = ''/x'', Header = [(''X-Id'', [''7''])],
      RealIP = ''10.0.0.1'', Body = []\<rparr>"

definition untaggedSpec :: Spec where
  "untaggedSpec =
     \<lparr>ServersTags = [],
      Servers = [\<lparr>URL = ''http://a'', Tags = []\<rparr>, \<lparr>URL = ''http://b'', Tags = []\<rparr>],
      LoadBalance = Some \<lparr>Policy = ''roundRobin'', HeaderHashKey = []\<rparr>,
      Adaptor = None, MemoryCache = None\<rparr>"

definition emptyPoolSpec :: Spec where
  "emptyPoolSpec = exampleSpec\<lparr>ServersTags := [''v3'']\<rparr>"

definition unknownPolicySpec :: Spec where
  "unknownPolicySpec =
     exampleSpec\<lparr>LoadBalance := Some \<lparr>Policy = ''leastConn'', HeaderHashKey = []\<rparr>\<rparr>"

definition headerHashSpec :: Spec where
  "headerHashSpec =
     exampleSpec\<lparr>LoadBalance := Some \<lparr>Policy = ''headerHash'', HeaderHashKey = ''X-Trace''\<rparr>\<rparr>"

definition adaptorCacheSpec :: Spec where
  "adaptorCacheSpec =
     exampleSpec\<lparr>Adaptor := Some (HTTPAdaptorSpec ''rewrite''),
                 MemoryCache := Some (MemoryCacheSpec ''cache'')\<rparr>"

definition exampleEnv :: env where
  "exampleEnv =
     \<lparr>cacheLoad = False, adaptRequestResult = (''GET'', ''/y'', []), randInt = 5,
      newRequestErr = None,
      doResult = Inr \<lparr>StatusCode = 200, RespHeader = [], RespBody = ''ok''\<rparr>\<rparr>"

definition failingEnv :: env where
  "failingEnv = exampleEnv\<lparr>doResult := Inl ''connection refused''\<rparr>"

definition hitEnv :: env where
  "hitEnv = exampleEnv\<lparr>cacheLoad := True\<rparr>"

definition adaptorSpec :: Spec where
  "adaptorSpec = exampleSpec\<lparr>Adaptor := Some (HTTPAdaptorSpec ''rewrite'')\<rparr>"

section \<open>Properties of the server pool\<close>

lemma StrInSlice_iff: "StrInSlice str ss \<longleftrightarrow> str \<in> set ss"
  by (induction ss) auto

lemma serverHasTag_iff: "serverHasTag svs \<longleftrightarrow> (\<exists>sv \<in> set svs. Tags sv \<noteq> [])"
  by (induction svs) auto

lemma allFound_iff: "allFound tags sv \<longleftrightarrow> set tags \<subseteq> set (Tags sv)"
  by (induction tags) (auto simp: StrInSlice_iff)

lemma pickLoop_filter:
  "pickLoop tags svs acc = acc @ filter (allFound tags) svs"
  by (induction svs arbitrary: acc) auto

lemma pickServers_filter:
  "pickServers s = filter (\<lambda>sv. set (ServersTags s) \<subseteq> set (Tags sv)) (Servers s)"
proof -
  have eq: "allFound (ServersTags s) = (\<lambda>sv. set (ServersTags s) \<subseteq> set (Tags sv))"
    by (rule ext) (simp add: allFound_iff)
  show ?thesis
  proof (cases "length (ServersTags s) = 0 \<and> \<not> serverHasTag (Servers s)")
    case True
    then have "filter (\<lambda>sv. set (ServersTags s) \<subseteq> set (Tags sv)) (Servers s) = Servers s"
      by simp
    with True show ?thesis by (simp add: pickServers_def)
  next
    case False
    then show ?thesis
      using eq by (simp add: pickServers_def pickLoop_filter)
  qed
qed

text \<open>
  C3. \<^verbatim>\<open>pickServers\<close>: when the tag filter is empty and no configured server
  carries a tag, the result is the whole configured list; otherwise the result is
  the configured list restricted to the servers whose tags contain every tag of
  the filter (so a server is included if and only if it passes that test); and in
  every case the result is a subsequence of the configured list, in its order.
\<close>

theorem pickServers_spec:
  "(ServersTags s = [] \<and> (\<forall>sv \<in> set (Servers s). Tags sv = []) \<longrightarrow>
      pickServers s = Servers s)
   \<and> (\<not> (ServersTags s = [] \<and> (\<forall>sv \<in> set (Servers s). Tags sv = [])) \<longrightarrow>
      pickServers s = filter (\<lambda>sv. set (ServersTags s) \<subseteq> set (Tags sv)) (Servers s)
      \<and> (\<forall>sv. sv \<in> set (pickServers s) \<longleftrightarrow>
            sv \<in> set (Servers s) \<and> set (ServersTags s) \<subseteq> set (Tags sv)))
   \<and> subseq (pickServers s) (Servers s)"
proof (intro conjI impI)
  assume "ServersTags s = [] \<and> (\<forall>sv \<in> set (Servers s). Tags sv = [])"
  then show "pickServers s = Servers s"
    by (simp add: pickServers_def serverHasTag_iff)
next
  show "pickServers s = filter (\<lambda>sv. set (ServersTags s) \<subseteq> set (Tags sv)) (Servers s)"
    by (rule pickServers_filter)
next
  show "\<forall>sv. sv \<in> set (pickServers s) \<longleftrightarrow>
          sv \<in> set (Servers s) \<and> set (ServersTags s) \<subseteq> set (Tags sv)"
    by (simp add: pickServers_filter)
next
  show "subseq (pickServers s) (Servers s)"
    by (simp add: pickServers_filter)
qed


theorem pickServers_spec_witness:
  "ServersTags untaggedSpec = [] \<and> list_all (\<lambda>sv. Tags sv = []) (Servers untaggedSpec)
   \<and> pickServers untaggedSpec = Servers untaggedSpec
   \<and> ServersTags exampleSpec \<noteq> []
   \<and> pickServers exampleSpec =
       [\<lparr>URL = ''http://a'', Tags = [''v1'']\<rparr>, \<lparr>URL = ''http://b'', Tags = [''v1'']\<rparr>]
   \<and> subseq (pickServers exampleSpec) (Servers exampleSpec)"
proof -
  have u: "ServersTags untaggedSpec = [] \<and> (\<forall>sv \<in> set (Servers untaggedSpec). Tags sv = [])"
    by (simp add: untaggedSpec_def)
  with pickServers_spec [of untaggedSpec]
  have 1: "pickServers untaggedSpec = Servers untaggedSpec"
    by blast
  have e: "\<not> (ServersTags exampleSpec = [] \<and> (\<forall>sv \<in> set (Servers exampleSpec). Tags sv = []))"
    by (simp add: exampleSpec_def)
  with pickServers_spec [of exampleSpec]
  have "pickServers exampleSpec =
        filter (\<lambda>sv. set (ServersTags exampleSpec) \<subseteq> set (Tags sv)) (Servers exampleSpec)"
    by blast
  then have 2: "pickServers exampleSpec =
      [\<lparr>URL = ''http://a'', Tags = [''v1'']\<rparr>, \<lparr>URL = ''http://b'', Tags = [''v1'']\<rparr>]"
    by (simp add: exampleSpec_def exampleServers_def)
  have 3: "subseq (pickServers exampleSpec) (Servers exampleSpec)"
    using pickServers_spec [of exampleSpec] by blast
  have 4: "ServersTags exampleSpec \<noteq> []"
    by (simp add: exampleSpec_def)
  have 5: "list_all (\<lambda>sv. Tags sv = []) (Servers untaggedSpec)"
    by (simp add: untaggedSpec_def)
  from u 1 2 3 4 5 show ?thesis by blast
qed

section \<open>Validation\<close>

text \<open>
  C4. \<^verbatim>\<open>Spec.Validate\<close> returns an error if and only if the servers picked by
  the tag filter are none: a spec whose filter picks no server is rejected, and a
  spec whose filter picks at least one server passes.
\<close>

theorem Validate_error_iff:
  "((\<exists>err. Validate s = Some err) \<longleftrightarrow> pickServers s = [])
   \<and> (Validate s = None \<longleftrightarrow> pickServers s \<noteq> [])"
  by (simp add: Validate_def Let_def)

text \<open>
  C9. \<^verbatim>\<open>LoadBalance.Validate\<close> returns an error if and only if the policy is
  \<open>headerHash\<close> and the header key is the empty string; with any other policy,
  and with any non-empty key, it returns no error.
\<close>

theorem LoadBalance_Validate_error_iff:
  "((\<exists>err. LoadBalance_Validate lb = Some err) \<longleftrightarrow>
      Policy lb = ''headerHash'' \<and> HeaderHashKey lb = [])
   \<and> (LoadBalance_Validate lb = None \<longleftrightarrow>
      \<not> (Policy lb = ''headerHash'' \<and> HeaderHashKey lb = []))"
  by (simp add: LoadBalance_Validate_def policyHeaderHash_def)
section \<open>Round-robin selection\<close>

lemma sint_of_nat_small: "i < 2 ^ 63 \<Longrightarrow> sint (of_nat i :: 64 word) = int i"
  by (simp add: signed_of_nat signed_take_bit_int_eq_self)

lemma server_at_rem_nat:
  assumes "svs \<noteq> []"
  shows "server_at_rem svs (int i) = Inr (i mod length svs)"
proof -
  from assms have n: "0 < length svs" by simp
  have "go_rem (int i) (int (length svs)) = Inr (int (i mod length svs))"
    using n by (cases "i = 0") (simp_all add: go_rem_def zmod_int)
  moreover have "index_servers svs (int (i mod length svs)) = Inr (i mod length svs)"
    using n by (simp add: index_servers_def)
  ultimately show ?thesis by (simp add: server_at_rem_def)
qed

lemma roundRobin_snd:
  "count (snd (roundRobin ctx b)) = count b + 1"
  "servers (snd (roundRobin ctx b)) = servers b"
  by (simp_all add: roundRobin_def Let_def)

lemma roundRobin_fst:
  "fst (roundRobin ctx b) = server_at_rem (servers b) (sint (count b + 1))"
  by (simp add: roundRobin_def Let_def)

lemma roundRobins_snd:
  "count (snd (roundRobins k ctx b)) = count b + of_nat k \<and>
   servers (snd (roundRobins k ctx b)) = servers b"
proof (induction k arbitrary: b)
  case 0
  then show ?case by simp
next
  case (Suc k)
  obtain r b' where rb: "roundRobin ctx b = (r, b')"
    by (cases "roundRobin ctx b")
  obtain rs b'' where rsb: "roundRobins k ctx b' = (rs, b'')"
    by (cases "roundRobins k ctx b'")
  have "count b' = count b + 1" "servers b' = servers b"
    using roundRobin_snd [of ctx b] rb by simp_all
  moreover have "count b'' = count b' + of_nat k" "servers b'' = servers b'"
    using Suc.IH [of b'] rsb by simp_all
  ultimately show ?case using rb rsb by (simp add: algebra_simps)
qed

text \<open>The selections are determined by the counter values they read.\<close>

lemma roundRobins_fst:
  "fst (roundRobins k ctx b) =
     map (\<lambda>i. server_at_rem (servers b) (sint (count b + of_nat i))) [1..<Suc k]"
proof (induction k arbitrary: b)
  case 0
  then show ?case by simp
next
  case (Suc k)
  let ?at = "\<lambda>b i. server_at_rem (servers b) (sint (count b + of_nat i))"
  obtain r b' where rb: "roundRobin ctx b = (r, b')"
    by (cases "roundRobin ctx b")
  obtain rs b'' where rsb: "roundRobins k ctx b' = (rs, b'')"
    by (cases "roundRobins k ctx b'")
  have b': "count b' = count b + 1" "servers b' = servers b"
    using roundRobin_snd [of ctx b] rb by simp_all
  have r: "r = ?at b 1"
    using roundRobin_fst [of ctx b] rb by simp
  have "rs = map (?at b') [1..<Suc k]"
    using Suc.IH [of b'] rsb by simp
  also have "\<dots> = map (\<lambda>i. ?at b (Suc i)) [1..<Suc k]"
    by (rule map_cong) (simp_all add: b' algebra_simps)
  also have "\<dots> = map (?at b) (map Suc [1..<Suc k])"
    by simp
  also have "map Suc [1..<Suc k] = [Suc 1..<Suc (Suc k)]"
    by (simp only: map_Suc_upt)
  finally have rs: "rs = map (?at b) [Suc 1..<Suc (Suc k)]" .
  have "[1..<Suc (Suc k)] = 1 # [Suc 1..<Suc (Suc k)]"
    by (simp add: upt_conv_Cons)
  then show ?case using rb rsb r rs by simp
qed

lemma mod_inj_window:
  fixes n :: nat
  assumes "x \<in> {j..<j + n}" "y \<in> {j..<j + n}" "x mod n = y mod n"
  shows "x = y"
proof -
  have aux: "a = c" if "a \<le> c" "c < a + n" "a mod n = c mod n" for a c :: nat
  proof -
    have "n dvd (c - a)"
      using that(1,3) mod_eq_dvd_iff_nat [of a c n] by simp
    moreover have "c - a < n" using that by arith
    ultimately have "\<not> 0 < c - a"
      using nat_dvd_not_less [of "c - a" n] by blast
    with that show ?thesis by simp
  qed
  show ?thesis
  proof (cases "x \<le> y")
    case True
    moreover have "y < x + n" using assms(1,2) by simp
    ultimately show ?thesis using assms(3) by (rule aux)
  next
    case False
    then have "y \<le> x" by simp
    moreover have "x < y + n" using assms(1,2) by simp
    ultimately have "y = x" using assms(3) [symmetric] by (rule aux)
    then show ?thesis by simp
  qed
qed

lemma inj_mod_window: "inj_on (\<lambda>i. i mod n) {j..<j + (n::nat)}"
  by (rule inj_onI) (rule mod_inj_window)

lemma distinct_mod_window: "distinct (map (\<lambda>i. i mod n) [j..<j + (n::nat)])"
  by (simp add: distinct_map inj_mod_window)

lemma image_mod_window:
  assumes "0 < n"
  shows "(\<lambda>i. i mod n) ` {j..<j + n} = {0..<n::nat}"
proof (rule card_subset_eq)
  show "finite {0..<n}" by simp
  show "(\<lambda>i. i mod n) ` {j..<j + n} \<subseteq> {0..<n}"
    using assms by (simp add: image_subset_iff)
  show "card ((\<lambda>i. i mod n) ` {j..<j + n}) = card {0..<n}"
    by (simp add: card_image inj_mod_window)
qed

section \<open>The constructor\<close>

lemma New_count: "count (New sp) = 0"
  by (simp add: New_def Let_def)

lemma New_servers: "servers (New sp) = pickServers sp"
  by (simp add: New_def Let_def)

lemma New_spec: "spec (New sp) = sp"
  by (simp add: New_def Let_def)

lemma shift_upt: "map (\<lambda>i. j + i) [1..<Suc n] = [Suc j..<Suc j + n]"
  by (induction n) simp_all

text \<open>
  C1 (as amended). Round-robin over a pool of \<open>N \<ge> 1\<close> servers, from a fresh
  counter of 0: as long as fewer than \<open>2^63\<close> selections have been made, the
  \<open>i\<close>-th selection (counted from 1) returns the index \<open>i mod N\<close>; the first
  selection returns \<open>1 mod N\<close>; and any \<open>N\<close> consecutive selections that end
  before selection number \<open>2^63\<close> return every index of \<open>[0, N)\<close> exactly once.
\<close>

theorem roundRobin_selections:
  assumes fresh: "count b = 0" and pool: "servers b \<noteq> []"
  shows "(\<forall>k < 2 ^ 63. fst (roundRobins k ctx b) =
            map (\<lambda>i. Inr (i mod length (servers b))) [1..<Suc k])
       \<and> fst (roundRobin ctx b) = Inr (1 mod length (servers b))
       \<and> (\<forall>j. j + length (servers b) < 2 ^ 63 \<longrightarrow>
            distinct (fst (roundRobins (length (servers b)) ctx (snd (roundRobins j ctx b))))
            \<and> set (fst (roundRobins (length (servers b)) ctx (snd (roundRobins j ctx b))))
                = Inr ` {0..<length (servers b)})"
proof (intro conjI allI impI)
  fix k :: nat
  assume k: "k < 2 ^ 63"
  have "map (\<lambda>i. server_at_rem (servers b) (sint (count b + of_nat i))) [1..<Suc k] =
        map (\<lambda>i. Inr (i mod length (servers b))) [1..<Suc k]"
  proof (rule map_cong [OF refl])
    fix i assume "i \<in> set [1..<Suc k]"
    then have "i \<le> k" by auto
    then have "i < 2 ^ 63" using k by (rule le_less_trans)
    then show "server_at_rem (servers b) (sint (count b + of_nat i)) =
               Inr (i mod length (servers b))"
      using fresh pool by (simp add: sint_of_nat_small server_at_rem_nat)
  qed
  then show "fst (roundRobins k ctx b) = map (\<lambda>i. Inr (i mod length (servers b))) [1..<Suc k]"
    by (simp only: roundRobins_fst)
next
  have "sint (1 :: 64 word) = int 1"
    by simp
  then show "fst (roundRobin ctx b) = Inr (1 mod length (servers b))"
    using fresh pool server_at_rem_nat [of "servers b" 1]
    by (simp only: roundRobin_fst) simp
next
  fix j :: nat
  let ?n = "length (servers b)"
  let ?b = "snd (roundRobins j ctx b)"
  assume j: "j + ?n < 2 ^ 63"
  have n: "0 < ?n" using pool by simp
  have bj: "count ?b = of_nat j" "servers ?b = servers b"
    using roundRobins_snd [of j ctx b] fresh by simp_all
  have "map (\<lambda>i. server_at_rem (servers ?b) (sint (count ?b + of_nat i))) [1..<Suc ?n] =
        map (\<lambda>i. Inr ((j + i) mod ?n)) [1..<Suc ?n]"
  proof (rule map_cong [OF refl])
    fix i assume "i \<in> set [1..<Suc ?n]"
    then have "j + i \<le> j + ?n" by auto
    then have "j + i < 2 ^ 63" using j by (rule le_less_trans)
    then have "sint (of_nat (j + i) :: 64 word) = int (j + i)"
      by (rule sint_of_nat_small)
    then show "server_at_rem (servers ?b) (sint (count ?b + of_nat i)) = Inr ((j + i) mod ?n)"
      using pool server_at_rem_nat [of "servers b" "j + i"] by (simp add: bj)
  qed
  then have "fst (roundRobins ?n ctx ?b) = map (\<lambda>i. Inr ((j + i) mod ?n)) [1..<Suc ?n]"
    using roundRobins_fst [of ?n ctx ?b] by (simp only: bj)
  also have "\<dots> = map Inr (map (\<lambda>i. i mod ?n) (map (\<lambda>i. j + i) [1..<Suc ?n]))"
    by simp
  also have "map (\<lambda>i. j + i) [1..<Suc ?n] = [Suc j..<Suc j + ?n]"
    by (rule shift_upt)
  finally have rs: "fst (roundRobins ?n ctx ?b) =
      map Inr (map (\<lambda>i. i mod ?n) [Suc j..<Suc j + ?n])" .
  have "inj_on Inr (set (map (\<lambda>i. i mod ?n) [Suc j..<Suc j + ?n]))"
    by (rule inj_onI) simp
  then show "distinct (fst (roundRobins ?n ctx ?b))"
    unfolding rs using distinct_mod_window [of ?n "Suc j"]
    by (simp only: distinct_map [of Inr] simp_thms)
  show "set (fst (roundRobins ?n ctx ?b)) = Inr ` {0..<?n}"
    unfolding rs using image_mod_window [OF n, of "Suc j"] by (simp only: set_map set_upt)
qed


theorem roundRobin_selections_witness:
  "count (New exampleSpec) = 0 \<and> servers (New exampleSpec) \<noteq> []
   \<and> fst (roundRobins 4 exampleRequest (New exampleSpec)) = [Inr 1, Inr 0, Inr 1, Inr 0]
   \<and> fst (roundRobin exampleRequest (New exampleSpec)) = Inr 1
   \<and> set (fst (roundRobins 2 exampleRequest (snd (roundRobins 3 exampleRequest (New exampleSpec)))))
       = {Inr 0, Inr 1}"
proof -
  have c: "count (New exampleSpec) = 0"
    by (rule New_count)
  have s: "servers (New exampleSpec) = [\<lparr>URL = ''http://a'', Tags = [''v1'']\<rparr>,
                                        \<lparr>URL = ''http://b'', Tags = [''v1'']\<rparr>]"
    by (simp add: New_servers pickServers_def exampleSpec_def exampleServers_def)
  then have p: "servers (New exampleSpec) \<noteq> []"
    by simp
  have l: "length (servers (New exampleSpec)) = 2"
    by (simp add: s)
  note th = roundRobin_selections [OF c p, of exampleRequest]
  have "(4::nat) < 2 ^ 63" by simp
  with th have "fst (roundRobins 4 exampleRequest (New exampleSpec)) =
      map (\<lambda>i. Inr (i mod length (servers (New exampleSpec)))) [1..<Suc 4]"
    by blast
  moreover have "[1..<Suc 4] = [1, 2, 3, 4::nat]"
    by code_simp
  ultimately have "fst (roundRobins 4 exampleRequest (New exampleSpec)) =
      map (\<lambda>i. Inr (i mod 2)) [1, 2, 3, 4]"
    by (simp only: l)
  then have a: "fst (roundRobins 4 exampleRequest (New exampleSpec)) = [Inr 1, Inr 0, Inr 1, Inr 0]"
    by simp
  from th have b: "fst (roundRobin exampleRequest (New exampleSpec)) = Inr 1"
    by (simp add: l)
  have "3 + length (servers (New exampleSpec)) < 2 ^ 63"
    by (simp add: l)
  with th have "set (fst (roundRobins (length (servers (New exampleSpec))) exampleRequest
                       (snd (roundRobins 3 exampleRequest (New exampleSpec)))))
                = Inr ` {0..<length (servers (New exampleSpec))}"
    by blast
  then have d: "set (fst (roundRobins 2 exampleRequest
                       (snd (roundRobins 3 exampleRequest (New exampleSpec))))) = {Inr 0, Inr 1}"
    by (simp add: l atLeast0_lessThan_Suc numeral_2_eq_2 insert_commute)
  from c p a b d show ?thesis by blast
qed

text \<open>
  The claim without the bound fails: on a fresh backend with three servers,
  selection number \<open>2^63\<close> reads the counter \<open>2^63\<close>, whose \<^verbatim>\<open>int\<close> is
  \<open>- 2^63\<close>; the remainder by 3 is \<open>-2\<close> and indexing the slice panics.
\<close>

theorem roundRobin_selection_2_63_counterexample:
  "count (New unfilteredSpec) = 0 \<and> length (servers (New unfilteredSpec)) = 3
   \<and> last (fst (roundRobins (2 ^ 63) exampleRequest (New unfilteredSpec))) = Inl IndexOutOfRange"
proof -
  have c: "count (New unfilteredSpec) = 0"
    by (rule New_count)
  have s: "length (servers (New unfilteredSpec)) = 3"
    by (simp add: New_servers pickServers_def unfilteredSpec_def exampleSpec_def exampleServers_def)
  have "last (fst (roundRobins (2 ^ 63) exampleRequest (New unfilteredSpec))) =
        server_at_rem (servers (New unfilteredSpec))
          (sint (count (New unfilteredSpec) + of_nat (2 ^ 63)))"
    by (simp only: roundRobins_fst) (simp add: last_map)
  also have "\<dots> = Inl IndexOutOfRange"
    by (simp add: c s server_at_rem_def go_rem_def index_servers_def)
  finally show ?thesis using c s by simp
qed

section \<open>Selection and the size of the pool\<close>

lemma server_at_rem_empty: "server_at_rem [] v = Inl DivideByZero"
  by (simp add: server_at_rem_def go_rem_def)

lemma server_at_rem_Inr:
  assumes "server_at_rem svs v = Inr i"
  shows "i < length svs"
  using assms
  by (auto simp: server_at_rem_def go_rem_def index_servers_def split: if_splits)

lemma server_at_rem_nonneg:
  assumes "svs \<noteq> []" and "0 \<le> v"
  shows "server_at_rem svs v = Inr (nat v mod length svs)"
  using server_at_rem_nat [OF assms(1), of "nat v"] assms(2) by simp

lemma index_servers_Inr:
  assumes "index_servers svs v = Inr i"
  shows "i < length svs"
  using assms by (auto simp: index_servers_def split: if_splits)

lemma random_Inr:
  assumes "fst (random e ctx b) = Inr i"
  shows "i < length (servers b)"
proof (cases "rand_Intn e (int (length (servers b)))")
  case (Inl p)
  with assms show ?thesis by (simp add: random_def)
next
  case (Inr v)
  with assms have "index_servers (servers b) v = Inr i"
    by (simp add: random_def)
  then show ?thesis by (rule index_servers_Inr)
qed

lemma headerHash_Inr:
  assumes "fst (headerHash ctx b) = Inr i"
  shows "i < length (servers b)"
  using assms
  by (auto simp: headerHash_def Let_def dest: server_at_rem_Inr split: option.splits)

lemma nextServer_Inr:
  assumes "fst (nextServer e ctx b) = Inr i"
  shows "i < length (servers b)"
proof (cases "LoadBalance (spec b)")
  case None
  with assms show ?thesis by (simp add: nextServer_def)
next
  case (Some lb)
  have rr: "fst (roundRobin ctx b) = Inr i \<Longrightarrow> i < length (servers b)"
    by (simp add: roundRobin_fst server_at_rem_Inr)
  have ip: "fst (ipHash ctx b) = Inr i \<Longrightarrow> i < length (servers b)"
    by (simp add: ipHash_def Let_def server_at_rem_Inr)
  from assms Some show ?thesis
    by (auto simp: nextServer_def split_beta split: if_splits
             dest: rr ip random_Inr headerHash_Inr)
qed

lemma nextServer_empty:
  assumes "servers b = []"
  shows "\<exists>p. fst (nextServer e ctx b) = Inl p"
proof (cases "fst (nextServer e ctx b)")
  case (Inl p)
  then show ?thesis by blast
next
  case (Inr i)
  then have "i < length (servers b)" by (rule nextServer_Inr)
  with assms show ?thesis by simp
qed


text \<open>
  C8. With a policy that is none of \<open>roundRobin\<close>, \<open>random\<close>, \<open>ipHash\<close> and
  \<open>headerHash\<close>, \<^verbatim>\<open>nextServer\<close> logs the inconsistency and returns exactly
  what \<^verbatim>\<open>roundRobin\<close> returns, leaving the backend as \<^verbatim>\<open>roundRobin\<close> leaves
  it; on a non-empty pool, with a counter whose \<^verbatim>\<open>int\<close> is not negative, that is
  a server of the pool and not a failure.
\<close>

theorem nextServer_unknown_policy:
  assumes "LoadBalance (spec b) = Some lb"
    and "Policy lb \<notin> {''roundRobin'', ''random'', ''ipHash'', ''headerHash''}"
  shows "nextServer e ctx b =
           (fst (roundRobin ctx b), snd (roundRobin ctx b),
            [Logger_Errorf (''BUG: unknown load balance policy: '' @ Policy lb)])
       \<and> (servers b \<noteq> [] \<and> 0 \<le> sint (count b + 1) \<longrightarrow>
            (\<exists>i < length (servers b). fst (nextServer e ctx b) = Inr i))"
proof (intro conjI impI)
  show eq: "nextServer e ctx b =
           (fst (roundRobin ctx b), snd (roundRobin ctx b),
            [Logger_Errorf (''BUG: unknown load balance policy: '' @ Policy lb)])"
    using assms
    by (simp add: nextServer_def split_beta policyRoundRobin_def policyRandom_def
          policyIPHash_def policyHeaderHash_def)
  assume "servers b \<noteq> [] \<and> 0 \<le> sint (count b + 1)"
  then have "fst (roundRobin ctx b) = Inr (nat (sint (count b + 1)) mod length (servers b))"
    by (simp add: roundRobin_fst server_at_rem_nonneg)
  moreover have "nat (sint (count b + 1)) mod length (servers b) < length (servers b)"
    using \<open>servers b \<noteq> [] \<and> 0 \<le> sint (count b + 1)\<close> by simp
  ultimately show "\<exists>i < length (servers b). fst (nextServer e ctx b) = Inr i"
    by (simp add: eq)
qed

theorem nextServer_unknown_policy_witness:
  "LoadBalance (spec (New unknownPolicySpec)) = Some \<lparr>Policy = ''leastConn'', HeaderHashKey = []\<rparr>
   \<and> ''leastConn'' \<notin> {''roundRobin'', ''random'', ''ipHash'', ''headerHash''}
   \<and> fst (nextServer exampleEnv exampleRequest (New unknownPolicySpec)) = Inr 1
   \<and> fst (roundRobin exampleRequest (New unknownPolicySpec)) = Inr 1
   \<and> snd (snd (nextServer exampleEnv exampleRequest (New unknownPolicySpec))) =
       [Logger_Errorf ''BUG: unknown load balance policy: leastConn'']"
proof -
  let ?lb = "\<lparr>Policy = ''leastConn'', HeaderHashKey = []\<rparr>"
  have lb: "LoadBalance (spec (New unknownPolicySpec)) = Some ?lb"
    by (simp add: New_spec unknownPolicySpec_def exampleSpec_def)
  have un: "Policy ?lb \<notin> {''roundRobin'', ''random'', ''ipHash'', ''headerHash''}"
    by simp
  have s: "servers (New unknownPolicySpec) =
      [\<lparr>URL = ''http://a'', Tags = [''v1'']\<rparr>, \<lparr>URL = ''http://b'', Tags = [''v1'']\<rparr>]"
    by (simp add: New_servers pickServers_def unknownPolicySpec_def exampleSpec_def
          exampleServers_def)
  have rr: "fst (roundRobin exampleRequest (New unknownPolicySpec)) = Inr 1"
    by (simp add: roundRobin_fst New_count s server_at_rem_def go_rem_def index_servers_def)
  from nextServer_unknown_policy [OF lb un, of exampleEnv exampleRequest]
  have "nextServer exampleEnv exampleRequest (New unknownPolicySpec) =
          (fst (roundRobin exampleRequest (New unknownPolicySpec)),
           snd (roundRobin exampleRequest (New unknownPolicySpec)),
           [Logger_Errorf (''BUG: unknown load balance policy: '' @ Policy ?lb)])"
    by blast
  then have "fst (nextServer exampleEnv exampleRequest (New unknownPolicySpec)) = Inr 1"
    and "snd (snd (nextServer exampleEnv exampleRequest (New unknownPolicySpec))) =
       [Logger_Errorf ''BUG: unknown load balance policy: leastConn'']"
    by (simp_all add: rr)
  with lb un rr show ?thesis by simp
qed

text \<open>
  C7. Header-hash selection on a request that lacks the configured header returns
  the same server index as on a request that carries the header with the empty
  string as its value, whatever the pool: both hash the empty string.
\<close>

theorem headerHash_missing_header:
  assumes "LoadBalance (spec b) = Some lb"
    and "map_of (Header ctx1) (HeaderHashKey lb) = None"
    and "map_of (Header ctx2) (HeaderHashKey lb) = Some ([] # vs)"
  shows "headerHash ctx1 b = headerHash ctx2 b
       \<and> headerHash ctx1 b = (server_at_rem (servers b) (uint (hash32Once [])), b)"
  using assms by (simp add: headerHash_def header_Get_def Let_def)

theorem headerHash_missing_header_witness:
  "LoadBalance (spec (New headerHashSpec)) = Some \<lparr>Policy = ''headerHash'', HeaderHashKey = ''X-Trace''\<rparr>
   \<and> map_of (Header exampleRequest) ''X-Trace'' = None
   \<and> map_of (Header (exampleRequest\<lparr>Header := [(''X-Trace'', [[]])]\<rparr>)) ''X-Trace'' = Some [[]]
   \<and> fst (headerHash exampleRequest (New headerHashSpec)) =
       fst (headerHash (exampleRequest\<lparr>Header := [(''X-Trace'', [[]])]\<rparr>) (New headerHashSpec))
   \<and> fst (headerHash exampleRequest (New headerHashSpec)) = Inr 1"
proof -
  let ?lb = "\<lparr>Policy = ''headerHash'', HeaderHashKey = ''X-Trace''\<rparr>"
  let ?ctx2 = "exampleRequest\<lparr>Header := [(''X-Trace'', [[]])]\<rparr>"
  have lb: "LoadBalance (spec (New headerHashSpec)) = Some ?lb"
    by (simp add: New_spec headerHashSpec_def exampleSpec_def)
  have h1: "map_of (Header exampleRequest) (HeaderHashKey ?lb) = None"
    by (simp add: exampleRequest_def)
  have h2: "map_of (Header ?ctx2) (HeaderHashKey ?lb) = Some ([] # [])"
    by simp
  have s: "servers (New headerHashSpec) =
      [\<lparr>URL = ''http://a'', Tags = [''v1'']\<rparr>, \<lparr>URL = ''http://b'', Tags = [''v1'']\<rparr>]"
    by (simp add: New_servers pickServers_def headerHashSpec_def exampleSpec_def
          exampleServers_def)
  note th = headerHash_missing_header [OF lb h1 h2]
  from th have "headerHash exampleRequest (New headerHashSpec) =
                headerHash ?ctx2 (New headerHashSpec)"
    by (rule conjunct1)
  then have a: "fst (headerHash exampleRequest (New headerHashSpec)) =
                fst (headerHash ?ctx2 (New headerHashSpec))"
    by (rule arg_cong)
  from th have "headerHash exampleRequest (New headerHashSpec) =
      (server_at_rem (servers (New headerHashSpec)) (uint (hash32Once [])), New headerHashSpec)"
    by (rule conjunct2)
  then have "fst (headerHash exampleRequest (New headerHashSpec)) =
             server_at_rem (servers (New headerHashSpec)) (uint (hash32Once []))"
    by simp
  then have b: "fst (headerHash exampleRequest (New headerHashSpec)) = Inr 1"
    by (simp add: s hash32Once_def server_at_rem_def go_rem_def index_servers_def)
  from lb h1 h2 a b show ?thesis by simp
qed


text \<open>
  C10. \<^verbatim>\<open>New\<close> validates nothing: for every spec it returns a backend whose
  servers are the picked ones, also when \<^verbatim>\<open>Validate\<close> rejects the spec because
  none is picked. On the backend of such a spec every selection panics: round
  robin, IP hash and header hash on the remainder by zero, whatever the counter and
  the request, and no policy returns an index. So a selection that returns an
  index, which is then within the pool, is only found on a spec that \<^verbatim>\<open>Validate\<close>
  accepts.
\<close>

theorem New_does_not_validate:
  "servers (New sp) = pickServers sp
   \<and> (Validate sp \<noteq> None \<longrightarrow>
        servers (New sp) = []
        \<and> (\<forall>c. fst (roundRobin ctx (New sp\<lparr>count := c\<rparr>)) = Inl DivideByZero)
        \<and> fst (ipHash ctx (New sp)) = Inl DivideByZero
        \<and> (LoadBalance sp \<noteq> None \<longrightarrow> fst (headerHash ctx (New sp)) = Inl DivideByZero)
        \<and> (\<exists>p. fst (nextServer e ctx (New sp)) = Inl p))
   \<and> (\<forall>i. fst (nextServer e ctx (New sp)) = Inr i \<longrightarrow>
        Validate sp = None \<and> pickServers sp \<noteq> [] \<and> i < length (pickServers sp))"
proof (intro conjI impI allI)
  show "servers (New sp) = pickServers sp"
    by (rule New_servers)
next
  assume v: "Validate sp \<noteq> None"
  then have e: "pickServers sp = []"
    by (simp add: Validate_def Let_def split: if_splits)
  then show s: "servers (New sp) = []"
    by (simp add: New_servers)
  show "fst (roundRobin ctx (New sp\<lparr>count := c\<rparr>)) = Inl DivideByZero" for c
    by (simp add: roundRobin_fst s server_at_rem_empty)
  show "fst (ipHash ctx (New sp)) = Inl DivideByZero"
    by (simp add: ipHash_def Let_def s server_at_rem_empty)
  show "\<exists>p. fst (nextServer e ctx (New sp)) = Inl p"
    using s by (rule nextServer_empty)
  assume "LoadBalance sp \<noteq> None"
  then show "fst (headerHash ctx (New sp)) = Inl DivideByZero"
    by (auto simp: headerHash_def Let_def New_spec s server_at_rem_empty)
next
  fix i
  assume "fst (nextServer e ctx (New sp)) = Inr i"
  then have "i < length (servers (New sp))"
    by (rule nextServer_Inr)
  then have i: "i < length (pickServers sp)"
    by (simp add: New_servers)
  then show "i < length (pickServers sp)" .
  from i show "pickServers sp \<noteq> []" by auto
  from i show "Validate sp = None" by (auto simp: Validate_def Let_def)
qed

theorem New_does_not_validate_witness:
  "Validate emptyPoolSpec \<noteq> None
   \<and> servers (New emptyPoolSpec) = []
   \<and> fst (roundRobin exampleRequest (New emptyPoolSpec)) = Inl DivideByZero
   \<and> LoadBalance emptyPoolSpec \<noteq> None
   \<and> fst (headerHash exampleRequest (New emptyPoolSpec)) = Inl DivideByZero
   \<and> fst (nextServer exampleEnv exampleRequest (New exampleSpec)) = Inr 1
   \<and> Validate exampleSpec = None"
proof -
  have p: "pickServers emptyPoolSpec = []"
    by (simp add: pickServers_def emptyPoolSpec_def exampleSpec_def exampleServers_def)
  then have v: "Validate emptyPoolSpec \<noteq> None"
    by (simp add: Validate_def)
  have lb: "LoadBalance emptyPoolSpec \<noteq> None"
    by (simp add: emptyPoolSpec_def exampleSpec_def)
  note th = New_does_not_validate [of emptyPoolSpec exampleRequest exampleEnv]
  from th v have 1: "servers (New emptyPoolSpec) = []"
    by blast
  from th v have "\<forall>c. fst (roundRobin exampleRequest (New emptyPoolSpec\<lparr>count := c\<rparr>)) = Inl DivideByZero"
    by blast
  then have "fst (roundRobin exampleRequest (New emptyPoolSpec\<lparr>count := 0\<rparr>)) = Inl DivideByZero"
    by blast
  moreover have "New emptyPoolSpec\<lparr>count := 0\<rparr> = New emptyPoolSpec"
    by (simp add: New_def Let_def)
  ultimately have 2: "fst (roundRobin exampleRequest (New emptyPoolSpec)) = Inl DivideByZero"
    by simp
  from th v lb have 3: "fst (headerHash exampleRequest (New emptyPoolSpec)) = Inl DivideByZero"
    by blast
  have s: "servers (New exampleSpec) =
      [\<lparr>URL = ''http://a'', Tags = [''v1'']\<rparr>, \<lparr>URL = ''http://b'', Tags = [''v1'']\<rparr>]"
    by (simp add: New_servers pickServers_def exampleSpec_def exampleServers_def)
  have "LoadBalance (spec (New exampleSpec)) = Some \<lparr>Policy = ''roundRobin'', HeaderHashKey = []\<rparr>"
    by (simp add: New_spec exampleSpec_def)
  then have 4: "fst (nextServer exampleEnv exampleRequest (New exampleSpec)) = Inr 1"
    by (simp add: nextServer_def policyRoundRobin_def split_beta roundRobin_fst New_count s
          server_at_rem_def go_rem_def index_servers_def)
  with New_does_not_validate [of exampleSpec exampleRequest exampleEnv]
  have 5: "Validate exampleSpec = None"
    by blast
  from v 1 2 lb 3 4 5 show ?thesis by blast
qed

section \<open>The response-returning path\<close>

lemma nextServer_calls:
  "snd (snd (nextServer e ctx b)) = [] \<or>
   (\<exists>msg. snd (snd (nextServer e ctx b)) = [Logger_Errorf msg])"
  by (simp add: nextServer_def split_beta split: option.splits)

lemma nextServer_codeCounter:
  "codeCounter (fst (snd (nextServer e ctx b))) = codeCounter b"
  by (simp add: nextServer_def split_beta roundRobin_def random_def ipHash_def headerHash_def
        Let_def split: option.splits sum.splits)

lemma adaptRequest_calls:
  "snd (adaptRequest e ctx inPlace b) = [] \<or>
   snd (adaptRequest e ctx inPlace b) = [Adaptor_AdaptRequest inPlace]"
  by (simp add: adaptRequest_def split: option.splits)

text \<open>What \<^verbatim>\<open>forward\<close> does on each of its exits.\<close>

lemma forward_panic:
  assumes "nextServer e ctx b = (Inl p, b1, cs1)"
  shows "forward e ctx b = (Some p, b1, cs1)"
  using assms by (simp add: forward_def)

lemma forward_newRequest_failure:
  assumes "nextServer e ctx b = (Inr i, b1, cs1)"
    and "adaptRequest e ctx True b1 = ((method, path, header), cs3)"
    and "newRequestErr e = Some err"
  shows "forward e ctx b =
    (None, b1,
     cs1 @ [Ctx_AddTag (''backendAddr:'' @ URL (servers b1 ! i))] @ cs3 @
     [Http_NewRequest method (URL (servers b1 ! i) @ path),
      Logger_Errorf (''BUG: new request failed: '' @ err),
      Resp_SetStatusCode 500,
      Ctx_AddTag (''backendBug:'' @ err)])"
  using assms by (simp add: forward_def Let_def)

lemma forward_do_failure:
  assumes "nextServer e ctx b = (Inr i, b1, cs1)"
    and "adaptRequest e ctx True b1 = ((method, path, header), cs3)"
    and "newRequestErr e = None"
    and "doResult e = Inl err"
  shows "forward e ctx b =
    (None, b1,
     cs1 @ [Ctx_AddTag (''backendAddr:'' @ URL (servers b1 ! i))] @ cs3 @
     [Http_NewRequest method (URL (servers b1 ! i) @ path),
      Client_Do method (URL (servers b1 ! i) @ path),
      Resp_SetStatusCode 503,
      Ctx_AddTag (''backendErr:'' @ err)])"
  using assms by (simp add: forward_def Let_def)

lemma forward_success:
  assumes "nextServer e ctx b = (Inr i, b1, cs1)"
    and "adaptRequest e ctx True b1 = ((method, path, header), cs3)"
    and "newRequestErr e = None"
    and "doResult e = Inr resp"
  shows "forward e ctx b =
    (None,
     b1\<lparr>codeCounter := codeCounter_count (codeCounter b1) (servers b1 ! i) (StatusCode resp)\<rparr>,
     cs1 @ [Ctx_AddTag (''backendAddr:'' @ URL (servers b1 ! i))] @ cs3 @
     [Http_NewRequest method (URL (servers b1 ! i) @ path),
      Client_Do method (URL (servers b1 ! i) @ path),
      Resp_SetStatusCode (StatusCode resp),
      Ctx_AddTag (''backendCode:'' @ showInt (StatusCode resp)),
      Resp_Header_AddFromStd,
      Resp_SetBody] @
     map ResponseGot (responseGotFuncs b1) @ [Ctx_OnFinish])"
  using assms by (simp add: forward_def Let_def)

text \<open>
  The body makes no call on the cache and none of \<^verbatim>\<open>AdaptResponse\<close>, on any of
  its exits.
\<close>

lemma forward_calls:
  "Cache_Load \<notin> set (snd (snd (forward e ctx b)))
   \<and> Cache_Store \<notin> set (snd (snd (forward e ctx b)))
   \<and> Adaptor_AdaptResponse \<notin> set (snd (snd (forward e ctx b)))"
proof -
  let ?ok = "\<lambda>cs. Cache_Load \<notin> set cs \<and> Cache_Store \<notin> set cs \<and> Adaptor_AdaptResponse \<notin> set cs"
  obtain r b1 cs1 where ns: "nextServer e ctx b = (r, b1, cs1)"
    by (cases "nextServer e ctx b")
  obtain m u h cs3 where ar: "adaptRequest e ctx True b1 = ((m, u, h), cs3)"
    by (cases "adaptRequest e ctx True b1") auto
  have c1: "?ok cs1"
    using nextServer_calls [of e ctx b] ns by auto
  have c3: "?ok cs3"
    using adaptRequest_calls [of e ctx True b1] ar by auto
  show ?thesis
  proof (cases r)
    case (Inl p)
    with ns c1 show ?thesis by (simp add: forward_panic)
  next
    case (Inr i)
    note sel = ns [unfolded Inr]
    show ?thesis
    proof (cases "newRequestErr e")
      case (Some err)
      show ?thesis
        using c1 c3 by (simp add: forward_newRequest_failure [OF sel ar Some])
    next
      case None
      show ?thesis
      proof (cases "doResult e")
        case (Inl err)
        show ?thesis
          using c1 c3 by (simp add: forward_do_failure [OF sel ar None Inl])
      next
        case (Inr resp)
        show ?thesis
          using c1 c3 by (auto simp: forward_success [OF sel ar None Inr])
      qed
    qed
  qed
qed


lemma adaptRequest_no_Do:
  "Client_Do m u \<notin> set (snd (adaptRequest e ctx inPlace b))"
  using adaptRequest_calls [of e ctx inPlace b] by auto

lemma nextServer_no_Do:
  "Client_Do m u \<notin> set (snd (snd (nextServer e ctx b)))"
  using nextServer_calls [of e ctx b] by auto

text \<open>
  C6. With a cache configured: when the cache reports a hit, the dispatch ends
  with the one call \<^verbatim>\<open>Load\<close> and leaves the backend as it was, so no server is
  selected (the round-robin counter is unchanged), no request is sent, the code
  counter is not updated, no tag is added and \<^verbatim>\<open>Store\<close> is not called; when it
  reports a miss, the calls are \<^verbatim>\<open>Load\<close>, then those of the body, which contain
  no \<^verbatim>\<open>Store\<close>, then \<^verbatim>\<open>Store\<close>, whichever way the body ends (a panic of the
  selection, a request that cannot be built, a transport failure or a response).
\<close>

theorem HandleWithResponse_cache:
  assumes "memoryCache b = Some mc"
  shows "(cacheLoad e \<longrightarrow> HandleWithResponse e ctx b = (None, b, [Cache_Load]))
       \<and> (\<not> cacheLoad e \<longrightarrow>
            HandleWithResponse e ctx b =
              (fst (forward e ctx b), fst (snd (forward e ctx b)),
               [Cache_Load] @ snd (snd (forward e ctx b)) @ [Cache_Store])
            \<and> Cache_Store \<notin> set (snd (snd (forward e ctx b)))
            \<and> last (snd (snd (HandleWithResponse e ctx b))) = Cache_Store)"
  using assms forward_calls [of e ctx b]
  by (simp add: HandleWithResponse_def split_beta)

theorem HandleWithResponse_cache_witness:
  "memoryCache (New adaptorCacheSpec) = Some (MkMemoryCache (MemoryCacheSpec ''cache''))
   \<and> cacheLoad hitEnv
   \<and> HandleWithResponse hitEnv exampleRequest (New adaptorCacheSpec) =
       (None, New adaptorCacheSpec, [Cache_Load])
   \<and> \<not> cacheLoad failingEnv
   \<and> snd (snd (HandleWithResponse failingEnv exampleRequest (New adaptorCacheSpec))) =
       [Cache_Load,
        Ctx_AddTag ''backendAddr:http://b'',
        Adaptor_AdaptRequest True,
        Http_NewRequest ''GET'' ''http://b/y'',
        Client_Do ''GET'' ''http://b/y'',
        Resp_SetStatusCode 503,
        Ctx_AddTag ''backendErr:connection refused'',
        Cache_Store]"
proof -
  let ?b = "New adaptorCacheSpec"
  have mc: "memoryCache ?b = Some (MkMemoryCache (MemoryCacheSpec ''cache''))"
    by (simp add: New_def Let_def adaptorCacheSpec_def memorycache_New_def)
  have hit: "cacheLoad hitEnv"
    by (simp add: hitEnv_def)
  have miss: "\<not> cacheLoad failingEnv"
    by (simp add: failingEnv_def exampleEnv_def)
  note th = HandleWithResponse_cache [OF mc]
  from th [of hitEnv exampleRequest] hit
  have 1: "HandleWithResponse hitEnv exampleRequest ?b = (None, ?b, [Cache_Load])"
    by blast
  from th [of failingEnv exampleRequest] miss
  have "HandleWithResponse failingEnv exampleRequest ?b =
      (fst (forward failingEnv exampleRequest ?b), fst (snd (forward failingEnv exampleRequest ?b)),
       [Cache_Load] @ snd (snd (forward failingEnv exampleRequest ?b)) @ [Cache_Store])"
    by blast
  then have "snd (snd (HandleWithResponse failingEnv exampleRequest ?b)) =
       [Cache_Load] @ snd (snd (forward failingEnv exampleRequest ?b)) @ [Cache_Store]"
    by simp
  moreover have "snd (snd (forward failingEnv exampleRequest ?b)) =
       [Ctx_AddTag ''backendAddr:http://b'',
        Adaptor_AdaptRequest True,
        Http_NewRequest ''GET'' ''http://b/y'',
        Client_Do ''GET'' ''http://b/y'',
        Resp_SetStatusCode 503,
        Ctx_AddTag ''backendErr:connection refused'']"
    by (simp add: forward_def nextServer_def roundRobin_def adaptRequest_def Let_def
          New_def pickServers_def adaptorCacheSpec_def exampleSpec_def exampleServers_def
          policyRoundRobin_def failingEnv_def exampleEnv_def
          server_at_rem_def go_rem_def index_servers_def)
  ultimately have 2: "snd (snd (HandleWithResponse failingEnv exampleRequest ?b)) =
       [Cache_Load,
        Ctx_AddTag ''backendAddr:http://b'',
        Adaptor_AdaptRequest True,
        Http_NewRequest ''GET'' ''http://b/y'',
        Client_Do ''GET'' ''http://b/y'',
        Resp_SetStatusCode 503,
        Ctx_AddTag ''backendErr:connection refused'',
        Cache_Store]"
    by simp
  from mc hit 1 miss 2 show ?thesis by blast
qed


text \<open>
  C5. When the dispatch goes on to the backend (no cache, or a miss), a server is
  selected, the request is built and the call through the client fails with the
  error \<open>err\<close>: the dispatcher calls the client once, sets the status 503, adds the
  tag \<open>backendErr:\<close> followed by the text of the error and returns (after the
  deferred \<^verbatim>\<open>Store\<close> when a cache is configured). The client is not called
  again and the code counter is left as it was.
\<close>

theorem HandleWithResponse_transport_failure:
  assumes "memoryCache b = None \<or> \<not> cacheLoad e"
    and "nextServer e ctx b = (Inr i, b1, cs1)"
    and "adaptRequest e ctx True b1 = ((method, path, header), cs3)"
    and "newRequestErr e = None"
    and "doResult e = Inl err"
  shows "\<exists>pre post.
           HandleWithResponse e ctx b =
             (None, b1,
              pre @ [Client_Do method (URL (servers b1 ! i) @ path),
                     Resp_SetStatusCode 503,
                     Ctx_AddTag (''backendErr:'' @ err)] @ post)
           \<and> (\<forall>m u. Client_Do m u \<notin> set pre)
           \<and> post = (case memoryCache b of None \<Rightarrow> [] | Some mc \<Rightarrow> [Cache_Store])
           \<and> codeCounter b1 = codeCounter b"
proof -
  let ?url = "URL (servers b1 ! i) @ path"
  let ?mid = "cs1 @ [Ctx_AddTag (''backendAddr:'' @ URL (servers b1 ! i))] @ cs3 @
              [Http_NewRequest method ?url]"
  let ?tail = "[Client_Do method ?url, Resp_SetStatusCode 503, Ctx_AddTag (''backendErr:'' @ err)]"
  have fw: "forward e ctx b = (None, b1, ?mid @ ?tail)"
    using forward_do_failure [OF assms(2-5)] by simp
  have cs1: "\<forall>m u. Client_Do m u \<notin> set cs1"
    using nextServer_no_Do [of _ _ e ctx b] assms(2) by simp
  have cs3: "\<forall>m u. Client_Do m u \<notin> set cs3"
    using adaptRequest_no_Do [of _ _ e ctx True b1] assms(3) by simp
  have mid: "\<forall>m u. Client_Do m u \<notin> set ?mid"
    using cs1 cs3 by simp
  have cc: "codeCounter b1 = codeCounter b"
    using nextServer_codeCounter [of e ctx b] assms(2) by simp
  show ?thesis
  proof (cases "memoryCache b")
    case None
    then have "HandleWithResponse e ctx b = (None, b1, ?mid @ ?tail @ [])"
      by (simp add: HandleWithResponse_def fw)
    with mid cc None show ?thesis
      by (intro exI [of _ ?mid] exI [of _ "[]"]) simp
  next
    case (Some mc)
    with assms(1) have "HandleWithResponse e ctx b =
        (None, b1, (Cache_Load # ?mid) @ ?tail @ [Cache_Store])"
      by (simp add: HandleWithResponse_def fw)
    with mid cc Some show ?thesis
      by (intro exI [of _ "Cache_Load # ?mid"] exI [of _ "[Cache_Store]"]) simp
  qed
qed

theorem HandleWithResponse_transport_failure_witness:
  "(memoryCache (New exampleSpec) = None \<or> \<not> cacheLoad failingEnv)
   \<and> nextServer failingEnv exampleRequest (New exampleSpec) =
       (Inr 1, New exampleSpec\<lparr>count := 1\<rparr>, [])
   \<and> adaptRequest failingEnv exampleRequest True (New exampleSpec\<lparr>count := 1\<rparr>) =
       ((''GET'', ''/x'', [(''X-Id'', [''7''])]), [])
   \<and> newRequestErr failingEnv = None
   \<and> doResult failingEnv = Inl ''connection refused''
   \<and> HandleWithResponse failingEnv exampleRequest (New exampleSpec) =
       (None, New exampleSpec\<lparr>count := 1\<rparr>,
        [Ctx_AddTag ''backendAddr:http://b'',
         Http_NewRequest ''GET'' ''http://b/x'',
         Client_Do ''GET'' ''http://b/x'',
         Resp_SetStatusCode 503,
         Ctx_AddTag ''backendErr:connection refused''])
   \<and> codeCounter (New exampleSpec\<lparr>count := 1\<rparr>) = codeCounter (New exampleSpec)"
proof -
  let ?b = "New exampleSpec"
  let ?b1 = "New exampleSpec\<lparr>count := 1\<rparr>"
  have m: "memoryCache ?b = None"
    by (simp add: New_def Let_def exampleSpec_def)
  then have mc: "memoryCache ?b = None \<or> \<not> cacheLoad failingEnv"
    by simp
  have ns: "nextServer failingEnv exampleRequest ?b = (Inr 1, ?b1, [])"
    by (simp add: nextServer_def roundRobin_def Let_def
          New_def pickServers_def exampleSpec_def exampleServers_def
          policyRoundRobin_def server_at_rem_def go_rem_def index_servers_def)
  have ar: "adaptRequest failingEnv exampleRequest True ?b1 =
              ((''GET'', ''/x'', [(''X-Id'', [''7''])]), [])"
    by (simp add: adaptRequest_def New_def Let_def exampleSpec_def exampleRequest_def)
  have nr: "newRequestErr failingEnv = None"
    by (simp add: failingEnv_def exampleEnv_def)
  have dr: "doResult failingEnv = Inl ''connection refused''"
    by (simp add: failingEnv_def exampleEnv_def)
  have sv: "URL (servers ?b ! Suc 0) = ''http://b''"
    by (simp add: New_def Let_def pickServers_def exampleSpec_def exampleServers_def)
  note th = HandleWithResponse_transport_failure [OF mc ns ar nr dr]
  from th have cc: "codeCounter ?b1 = codeCounter ?b"
    by (elim exE conjE)
  from th obtain pre post where
    h: "HandleWithResponse failingEnv exampleRequest ?b =
          (None, ?b1,
           pre @ [Client_Do ''GET'' (URL (servers ?b1 ! 1) @ ''/x''),
                  Resp_SetStatusCode 503,
                  Ctx_AddTag (''backendErr:'' @ ''connection refused'')] @ post)"
    and nodo: "\<forall>m u. Client_Do m u \<notin> set pre"
    and post: "post = (case memoryCache ?b of None \<Rightarrow> [] | Some mc \<Rightarrow> [Cache_Store])"
    by (elim exE conjE)
  have full: "HandleWithResponse failingEnv exampleRequest ?b =
       (None, ?b1,
        [Ctx_AddTag ''backendAddr:http://b'',
         Http_NewRequest ''GET'' ''http://b/x'',
         Client_Do ''GET'' ''http://b/x'',
         Resp_SetStatusCode 503,
         Ctx_AddTag ''backendErr:connection refused''])"
    using forward_do_failure [OF ns ar nr dr]
    by (simp add: HandleWithResponse_def m sv)
  show ?thesis
    using mc ns ar nr dr full cc by (intro conjI)
qed


text \<open>
  \<^verbatim>\<open>HandleWithResponse\<close> never calls \<^verbatim>\<open>AdaptResponse\<close>: the method
  \<^verbatim>\<open>adaptResponse\<close> of the backend is defined and not called.
\<close>

lemma HandleWithResponse_never_adaptResponse:
  "Adaptor_AdaptResponse \<notin> set (snd (snd (HandleWithResponse e ctx b)))"
  using forward_calls [of e ctx b]
  by (simp add: HandleWithResponse_def split_beta split: option.splits)

text \<open>
  C2. The claim has the response adapted, after the callbacks and before the
  return, whenever an adaptor is configured and the forwarded call succeeds. The
  code does not do it. On the backend of \<open>adaptorSpec\<close>, which has an adaptor, with
  one callback registered and a backend server that answers 200, the request is
  adapted and the call succeeds, and the calls end with the callback and the
  registration of the completion hook: \<^verbatim>\<open>AdaptResponse\<close> is not among them,
  though \<^verbatim>\<open>adaptResponse\<close> would call it on this backend.
\<close>

theorem HandleWithResponse_omits_adaptResponse:
  "adaptor (OnResponseGot ''cb'' (New adaptorSpec)) = Some (MkHTTPAdaptor (HTTPAdaptorSpec ''rewrite''))
   \<and> doResult exampleEnv = Inr \<lparr>StatusCode = 200, RespHeader = [], RespBody = ''ok''\<rparr>
   \<and> fst (HandleWithResponse exampleEnv exampleRequest (OnResponseGot ''cb'' (New adaptorSpec))) = None
   \<and> snd (snd (HandleWithResponse exampleEnv exampleRequest (OnResponseGot ''cb'' (New adaptorSpec)))) =
       [Ctx_AddTag ''backendAddr:http://b'',
        Adaptor_AdaptRequest True,
        Http_NewRequest ''GET'' ''http://b/y'',
        Client_Do ''GET'' ''http://b/y'',
        Resp_SetStatusCode 200,
        Ctx_AddTag ''backendCode:200'',
        Resp_Header_AddFromStd,
        Resp_SetBody,
        ResponseGot ''cb'',
        Ctx_OnFinish]
   \<and> Adaptor_AdaptResponse \<notin>
       set (snd (snd (HandleWithResponse exampleEnv exampleRequest (OnResponseGot ''cb'' (New adaptorSpec)))))
   \<and> adaptResponse (OnResponseGot ''cb'' (New adaptorSpec)) = [Adaptor_AdaptResponse]"
proof -
  let ?b = "OnResponseGot ''cb'' (New adaptorSpec)"
  let ?b1 = "?b\<lparr>count := 1\<rparr>"
  have ad: "adaptor ?b = Some (MkHTTPAdaptor (HTTPAdaptorSpec ''rewrite''))"
    by (simp add: OnResponseGot_def New_def Let_def adaptorSpec_def httpadaptor_New_def)
  have m: "memoryCache ?b = None"
    by (simp add: OnResponseGot_def New_def Let_def adaptorSpec_def exampleSpec_def)
  have dr: "doResult exampleEnv = Inr \<lparr>StatusCode = 200, RespHeader = [], RespBody = ''ok''\<rparr>"
    by (simp add: exampleEnv_def)
  have nr: "newRequestErr exampleEnv = None"
    by (simp add: exampleEnv_def)
  have ns: "nextServer exampleEnv exampleRequest ?b = (Inr 1, ?b1, [])"
    by (simp add: nextServer_def roundRobin_def Let_def OnResponseGot_def
          New_def pickServers_def adaptorSpec_def exampleSpec_def exampleServers_def
          policyRoundRobin_def server_at_rem_def go_rem_def index_servers_def)
  have ar: "adaptRequest exampleEnv exampleRequest True ?b1 =
              ((''GET'', ''/y'', []), [Adaptor_AdaptRequest True])"
    using ad by (simp add: adaptRequest_def exampleEnv_def)
  have sv: "URL (servers ?b ! Suc 0) = ''http://b''"
    by (simp add: OnResponseGot_def New_def Let_def pickServers_def adaptorSpec_def
          exampleSpec_def exampleServers_def)
  have fs: "responseGotFuncs ?b = [''cb'']"
    by (simp add: OnResponseGot_def New_def Let_def)
  have sh: "showInt 200 = ''200''"
    by code_simp
  have res: "HandleWithResponse exampleEnv exampleRequest ?b =
      (None,
       ?b1\<lparr>codeCounter := codeCounter_count (codeCounter ?b1) (servers ?b1 ! 1) 200\<rparr>,
       [Ctx_AddTag ''backendAddr:http://b'',
        Adaptor_AdaptRequest True,
        Http_NewRequest ''GET'' ''http://b/y'',
        Client_Do ''GET'' ''http://b/y'',
        Resp_SetStatusCode 200,
        Ctx_AddTag ''backendCode:200'',
        Resp_Header_AddFromStd,
        Resp_SetBody,
        ResponseGot ''cb'',
        Ctx_OnFinish])"
    using forward_success [OF ns ar nr dr]
    by (simp add: HandleWithResponse_def m sv fs sh)
  have ap: "adaptResponse ?b = [Adaptor_AdaptResponse]"
    using ad by (simp add: adaptResponse_def)
  show ?thesis
    using ad dr ap by (simp add: res)
qed

end
